theory Spec2Isabelle
  imports Main "HOL-Library.Sublist" "HOL-Library.Char_ord" "HOL-Library.List_Lexorder"
begin

section \<open>The data of \<^verbatim>\<open>voice_medical_agent.py\<close>\<close>

text \<open>
  The module keeps two globals: \<^verbatim>\<open>SLOTS\<close>, a list of dicts with the keys
  \<^verbatim>\<open>start_iso\<close> and \<^verbatim>\<open>duration_min\<close>, and \<^verbatim>\<open>BOOKINGS\<close>, a list of dicts
  with the keys \<^verbatim>\<open>id\<close>, \<^verbatim>\<open>name\<close>, \<^verbatim>\<open>phone\<close>, \<^verbatim>\<open>insurer\<close>, \<^verbatim>\<open>reason\<close> and
  \<^verbatim>\<open>slot_iso\<close>. Each dict is a record with those keys as fields (\<open>id\<close> is a constant
  of HOL, so the field is \<open>id'\<close>). A Python \<^verbatim>\<open>str\<close> is a \<open>string\<close>; a character
  stands for a code point below 256.
\<close>

record slot =
  start_iso :: string
  duration_min :: int

record booking =
  id' :: string
  name :: string
  phone :: string
  insurer :: string
  reason :: string
  slot_iso :: string

record state =
  SLOTS :: "slot list"
  BOOKINGS :: "booking list"

text \<open>The three dicts the tools return.\<close>

record insurance_reply =
  accepted :: bool

record slots_reply =
  slots :: "slot list"

datatype booking_reply =
  ErrorReply (error: string)
| SavedReply (confirmation_id: string) (saved: bool)

section \<open>Strings\<close>

text \<open>
  \<^verbatim>\<open>str.strip()\<close> removes leading and trailing whitespace. On the code points below
  256 Python's whitespace is: tab, line feed, vertical tab, form feed, carriage return
  (9 to 13), the separators 28 to 31, the space (32), next line (133) and the
  no-break space (160).
\<close>

definition isspace :: "char \<Rightarrow> bool" where
  "isspace c = (of_char c \<in> {9, 10, 11, 12, 13, 28, 29, 30, 31, 32, 133, 160 :: nat})"

definition strip :: "string \<Rightarrow> string" where
  "strip s = rev (dropWhile isspace (rev (dropWhile isspace s)))"

text \<open>
  \<^verbatim>\<open>str.upper()\<close> on the ASCII letters, which is all a hexadecimal uuid holds besides
  digits: \<^verbatim>\<open>a\<close> .. \<^verbatim>\<open>z\<close> move down by 32, everything else stays.
\<close>

definition upper_char :: "char \<Rightarrow> char" where
  "upper_char c =
     (let k = of_char c :: nat in if 97 \<le> k \<and> k \<le> 122 then char_of (k - 32) else c)"

definition upper :: "string \<Rightarrow> string" where
  "upper s = map upper_char s"

section \<open>The tools\<close>

definition ACCEPTED_INSURERS :: "string set" where
  "ACCEPTED_INSURERS = {''Aetna'', ''Blue Cross'', ''Cigna'', ''Medicare''}"

text \<open>
  \<^verbatim>\<open>accepted = insurer_name.strip() in ACCEPTED_INSURERS; return {"accepted": accepted}\<close>
\<close>

definition check_insurance :: "string \<Rightarrow> insurance_reply" where
  "check_insurance insurer_name = \<lparr>accepted = (strip insurer_name \<in> ACCEPTED_INSURERS)\<rparr>"

text \<open>
  \<^verbatim>\<open>
  if date_pref:
      pref = [s for s in SLOTS if s["start_iso"].startswith(date_pref)]
      if pref:
          return {"slots": pref[:3]}
  return {"slots": SLOTS[:6]}
  \<close>
  \<^verbatim>\<open>date_pref\<close> is an \<^verbatim>\<open>Optional[str]\<close>; \<^verbatim>\<open>None\<close> and the empty string are both
  false in the first test, and an empty \<^verbatim>\<open>pref\<close> is false in the second.
\<close>

definition get_slots :: "state \<Rightarrow> string option \<Rightarrow> slots_reply" where
  "get_slots st date_pref =
     (case date_pref of
        None \<Rightarrow> \<lparr>slots = take 6 (SLOTS st)\<rparr>
      | Some d \<Rightarrow>
          if d \<noteq> [] then
            (let pref = filter (\<lambda>s. prefix d (start_iso s)) (SLOTS st)
             in if pref \<noteq> [] then \<lparr>slots = take 3 pref\<rparr>
                else \<lparr>slots = take 6 (SLOTS st)\<rparr>)
          else \<lparr>slots = take 6 (SLOTS st)\<rparr>)"

text \<open>
  \<^verbatim>\<open>
  if slot_iso not in {s["start_iso"] for s in SLOTS}:
      return {"error": "slot_unavailable"}
  confirmation = uuid.uuid4().hex[:8].upper()
  BOOKINGS.append({"id": confirmation, "name": name, "phone": phone,
                   "insurer": insurer, "reason": reason, "slot_iso": slot_iso})
  return {"confirmation_id": confirmation, "saved": True}
  \<close>
  The random source is an argument: \<open>uuid_hex\<close> is the value \<^verbatim>\<open>uuid.uuid4().hex\<close> has
  in this call. The function returns the reply and the globals after the call. The
  coroutine has no \<^verbatim>\<open>await\<close>, so the event loop runs each call to its end before the
  next one starts: concurrent calls are a sequence of calls.
\<close>

definition create_booking ::
  "state \<Rightarrow> string \<Rightarrow> string \<Rightarrow> string \<Rightarrow> string \<Rightarrow> string \<Rightarrow> string \<Rightarrow> booking_reply \<times> state" where
  "create_booking st uuid_hex nm ph ins rsn slt =
     (if slt \<notin> set (map start_iso (SLOTS st)) then (ErrorReply ''slot_unavailable'', st)
      else
        (let confirmation = upper (take 8 uuid_hex)
         in (SavedReply confirmation True,
             st\<lparr>BOOKINGS := BOOKINGS st @
                [\<lparr>id' = confirmation, name = nm, phone = ph, insurer = ins,
                  reason = rsn, slot_iso = slt\<rparr>]\<rparr>)))"

subsection \<open>Sequences of tool calls\<close>

text \<open>
  The dialogue engine calls the three tools in any order. A call to
  \<^verbatim>\<open>create_booking\<close> carries the uuid drawn in it.
\<close>

datatype call =
  CheckInsurance string
| GetSlots "string option"
| CreateBooking string string string string string string

datatype reply =
  Insurance insurance_reply
| Slots slots_reply
| Booking booking_reply

fun step :: "state \<Rightarrow> call \<Rightarrow> reply \<times> state" where
  "step st (CheckInsurance insurer_name) = (Insurance (check_insurance insurer_name), st)"
| "step st (GetSlots date_pref) = (Slots (get_slots st date_pref), st)"
| "step st (CreateBooking uuid_hex nm ph ins rsn slt) =
     (case create_booking st uuid_hex nm ph ins rsn slt of (r, st') \<Rightarrow> (Booking r, st'))"

fun run :: "state \<Rightarrow> call list \<Rightarrow> reply list \<times> state" where
  "run st [] = ([], st)"
| "run st (c # cs) =
     (case step st c of (r, st') \<Rightarrow> (case run st' cs of (rs, st'') \<Rightarrow> (r # rs, st'')))"

section \<open>Generating the catalog\<close>

text \<open>
  A naive \<^verbatim>\<open>datetime\<close> of the standard library: its seven fields. The library
  keeps \<open>1 \<le> year \<le> 9999\<close>, a month from 1 to 12, a day of that month, and a time of
  day; \<^verbatim>\<open>datetime.now()\<close> is the argument \<open>now\<close>.
\<close>

record datetime =
  year :: nat
  month :: nat
  day :: nat
  hour :: nat
  minute :: nat
  second :: nat
  microsecond :: nat

datatype error = OverflowError

definition is_leap :: "nat \<Rightarrow> bool" where
  "is_leap y = (y mod 4 = 0 \<and> (y mod 100 \<noteq> 0 \<or> y mod 400 = 0))"

definition days_in_month :: "nat \<Rightarrow> nat \<Rightarrow> nat" where
  "days_in_month y m =
     (if m = 2 then (if is_leap y then 29 else 28)
      else if m = 4 \<or> m = 6 \<or> m = 9 \<or> m = 11 then 30 else 31)"

definition valid_datetime :: "datetime \<Rightarrow> bool" where
  "valid_datetime t =
     (1 \<le> year t \<and> year t \<le> 9999 \<and> 1 \<le> month t \<and> month t \<le> 12 \<and>
      1 \<le> day t \<and> day t \<le> days_in_month (year t) (month t) \<and>
      hour t < 24 \<and> minute t < 60 \<and> second t < 60 \<and> microsecond t < 1000000)"

text \<open>
  \<^verbatim>\<open>now + timedelta(days=k)\<close> moves the date \<open>k\<close> days forward in the proleptic
  Gregorian calendar and keeps the time of day; the library raises
  \<^verbatim>\<open>OverflowError\<close> when the date would pass 31 December 9999. Moving forward one day
  at a time reaches the same date, and passes the last day exactly when the sum does.
\<close>

definition next_day :: "datetime \<Rightarrow> error + datetime" where
  "next_day t =
     (if day t < days_in_month (year t) (month t) then Inr (t\<lparr>day := day t + 1\<rparr>)
      else if month t < 12 then Inr (t\<lparr>month := month t + 1, day := 1\<rparr>)
      else if year t < 9999 then Inr (t\<lparr>year := year t + 1, month := 1, day := 1\<rparr>)
      else Inl OverflowError)"

fun add_days :: "datetime \<Rightarrow> nat \<Rightarrow> error + datetime" where
  "add_days t 0 = Inr t"
| "add_days t (Suc k) = (case next_day t of Inl e \<Rightarrow> Inl e | Inr t' \<Rightarrow> add_days t' k)"

text \<open>
  \<^verbatim>\<open>isoformat()\<close> of a naive datetime is \<^verbatim>\<open>"%04d-%02d-%02dT%02d:%02d:%02d"\<close>,
  followed by \<^verbatim>\<open>".%06d"\<close> of the microseconds when they are not zero.
\<close>

definition digit_char :: "nat \<Rightarrow> char" where
  "digit_char n = char_of (48 + n)"

function dec_digits :: "nat \<Rightarrow> string" where
  "dec_digits n =
     (if n < 10 then [digit_char n] else dec_digits (n div 10) @ [digit_char (n mod 10)])"
  by pat_completeness auto
termination
  by (relation "measure id") auto

declare dec_digits.simps [simp del]

definition zero_pad :: "nat \<Rightarrow> nat \<Rightarrow> string" where
  "zero_pad w n = replicate (w - length (dec_digits n)) (CHR ''0'') @ dec_digits n"

definition isoformat :: "datetime \<Rightarrow> string" where
  "isoformat t =
     zero_pad 4 (year t) @ ''-'' @ zero_pad 2 (month t) @ ''-'' @ zero_pad 2 (day t) @ ''T'' @
     zero_pad 2 (hour t) @ '':'' @ zero_pad 2 (minute t) @ '':'' @ zero_pad 2 (second t) @
     (if microsecond t = 0 then [] else ''.'' @ zero_pad 6 (microsecond t))"

text \<open>
  \<^verbatim>\<open>
  def _default_slots(n_days: int = 3) -> list[dict]:
      now = datetime.now()
      slots = []
      daily = [(10, 0), (14, 30), (16, 0)]
      for d in range(n_days):
          base = (now + timedelta(days=d+1)).replace(hour=0, minute=0, second=0, microsecond=0)
          for hh, mm in daily:
              start = base.replace(hour=hh, minute=mm)
              slots.append({"start_iso": start.isoformat(), "duration_min": 20})
      return slots
  \<close>
  An Isabelle name cannot start with an underscore: the function is \<open>default_slots\<close>.
  \<open>day_slots\<close> is the inner loop, \<open>slots_loop\<close> the outer one over the values of
  \<^verbatim>\<open>range(n_days)\<close> with the list \<^verbatim>\<open>slots\<close> built so far; \<^verbatim>\<open>range\<close> of a number
  below 1 is empty.
\<close>

definition daily :: "(nat \<times> nat) list" where
  "daily = [(10, 0), (14, 30), (16, 0)]"

definition mk_slot :: "datetime \<Rightarrow> slot" where
  "mk_slot start = \<lparr>start_iso = isoformat start, duration_min = 20\<rparr>"

definition day_slots :: "datetime \<Rightarrow> slot list" where
  "day_slots base = map (\<lambda>(hh, mm). mk_slot (base\<lparr>hour := hh, minute := mm\<rparr>)) daily"

fun slots_loop :: "datetime \<Rightarrow> nat list \<Rightarrow> slot list \<Rightarrow> error + slot list" where
  "slots_loop now [] acc = Inr acc"
| "slots_loop now (d # ds) acc =
     (case add_days now (d + 1) of
        Inl e \<Rightarrow> Inl e
      | Inr t \<Rightarrow>
          slots_loop now ds
            (acc @ day_slots (t\<lparr>hour := 0, minute := 0, second := 0, microsecond := 0\<rparr>)))"

definition default_slots :: "datetime \<Rightarrow> int \<Rightarrow> error + slot list" where
  "default_slots now n_days = slots_loop now [0..<nat n_days] []"

text \<open>Naive datetimes compare field by field, the year first.\<close>

definition day_before :: "datetime \<Rightarrow> datetime \<Rightarrow> bool" where
  "day_before a b =
     (year a < year b \<or> (year a = year b \<and>
       (month a < month b \<or> (month a = month b \<and> day a < day b))))"

definition same_day :: "datetime \<Rightarrow> datetime \<Rightarrow> bool" where
  "same_day a b = (year a = year b \<and> month a = month b \<and> day a = day b)"

definition time_before :: "datetime \<Rightarrow> datetime \<Rightarrow> bool" where
  "time_before a b =
     (hour a < hour b \<or> (hour a = hour b \<and>
       (minute a < minute b \<or> (minute a = minute b \<and>
         (second a < second b \<or> (second a = second b \<and> microsecond a < microsecond b))))))"

definition before :: "datetime \<Rightarrow> datetime \<Rightarrow> bool" where
  "before a b = (day_before a b \<or> (same_day a b \<and> time_before a b))"

section \<open>Reading a run, and an example\<close>

text \<open>
  The \<^verbatim>\<open>slot_iso\<close> argument of a call to \<^verbatim>\<open>create_booking\<close>, and the confirmation
  id such a call stores: none when the slot is not in the catalog.
\<close>

fun booked_slot :: "call \<Rightarrow> string option" where
  "booked_slot (CreateBooking uuid_hex nm ph ins rsn slt) = Some slt"
| "booked_slot _ = None"

fun stored_id :: "state \<Rightarrow> call \<Rightarrow> string list" where
  "stored_id st (CreateBooking uuid_hex nm ph ins rsn slt) =
     (if slt \<in> set (map start_iso (SLOTS st)) then [upper (take 8 uuid_hex)] else [])"
| "stored_id st _ = []"

text \<open>
  The catalog generated on 9 June 2025 at 09:15:27.000531, the globals right after the
  import, one booking, the call that makes it, and the globals after that call.
\<close>

definition demo_now :: datetime where
  "demo_now = \<lparr>year = 2025, month = 6, day = 9, hour = 9, minute = 15, second = 27, microsecond = 531\<rparr>"

definition demo_catalog :: "slot list" where
  "demo_catalog =
     [\<lparr>start_iso = ''2025-06-10T10:00:00'', duration_min = 20\<rparr>,
      \<lparr>start_iso = ''2025-06-10T14:30:00'', duration_min = 20\<rparr>,
      \<lparr>start_iso = ''2025-06-10T16:00:00'', duration_min = 20\<rparr>,
      \<lparr>start_iso = ''2025-06-11T10:00:00'', duration_min = 20\<rparr>,
      \<lparr>start_iso = ''2025-06-11T14:30:00'', duration_min = 20\<rparr>,
      \<lparr>start_iso = ''2025-06-11T16:00:00'', duration_min = 20\<rparr>,
      \<lparr>start_iso = ''2025-06-12T10:00:00'', duration_min = 20\<rparr>,
      \<lparr>start_iso = ''2025-06-12T14:30:00'', duration_min = 20\<rparr>,
      \<lparr>start_iso = ''2025-06-12T16:00:00'', duration_min = 20\<rparr>]"

definition demo_state :: state where
  "demo_state = \<lparr>SLOTS = demo_catalog, BOOKINGS = []\<rparr>"

definition ann :: booking where
  "ann = \<lparr>id' = ''3F2B8C1D'', name = ''Ann Lee'', phone = ''5550100'', insurer = ''Cigna'',
           reason = ''cough'', slot_iso = ''2025-06-10T10:00:00''\<rparr>"

definition ann_call :: call where
  "ann_call = CreateBooking ''3f2b8c1de4a74f0e9b6a5d4c3b2a1908'' ''Ann Lee'' ''5550100'' ''Cigna''
     ''cough'' ''2025-06-10T10:00:00''"

definition booked_state :: state where
  "booked_state = \<lparr>SLOTS = demo_catalog, BOOKINGS = [ann]\<rparr>"

section \<open>The start times of a catalog\<close>

text \<open>
  The start times behind a generated catalog, before \<^verbatim>\<open>isoformat\<close> turns them into
  strings: for every day \<open>d\<close> of \<^verbatim>\<open>range(n)\<close>, the three times of the table on the day
  \<open>d + 1\<close> days after \<open>now\<close>.
\<close>

definition day_starts :: "datetime \<Rightarrow> datetime list" where
  "day_starts base = map (\<lambda>(hh, mm). base\<lparr>hour := hh, minute := mm\<rparr>) daily"

definition generated_starts :: "datetime \<Rightarrow> nat \<Rightarrow> datetime list" where
  "generated_starts now n =
     concat (map (\<lambda>d. day_starts
       ((projr (add_days now (d + 1)))\<lparr>hour := 0, minute := 0, second := 0, microsecond := 0\<rparr>))
       [0..<n])"

text \<open>
  The fields of a datetime that fill the widths of \<^verbatim>\<open>isoformat\<close> and leave no
  fraction, and the bounds the library keeps on a date.
\<close>

definition fits :: "datetime \<Rightarrow> bool" where
  "fits t = (year t < 10000 \<and> month t < 100 \<and> day t < 100 \<and> hour t < 100 \<and>
     minute t < 100 \<and> second t < 100 \<and> microsecond t = 0)"

definition in_range :: "datetime \<Rightarrow> bool" where
  "in_range t = (year t \<le> 9999 \<and> month t \<le> 12 \<and> day t \<le> 31)"

section \<open>What a call and a run do to the globals\<close>

lemma SLOTS_create_booking [simp]:
  "SLOTS (snd (create_booking st u n p i r s)) = SLOTS st"
  by (simp add: create_booking_def Let_def)

lemma BOOKINGS_create_booking:
  "BOOKINGS (snd (create_booking st u n p i r s)) =
     BOOKINGS st @ (if s \<in> set (map start_iso (SLOTS st))
       then [\<lparr>id' = upper (take 8 u), name = n, phone = p, insurer = i, reason = r, slot_iso = s\<rparr>]
       else [])"
  by (simp add: create_booking_def Let_def)

lemma fst_create_booking:
  "fst (create_booking st u n p i r s) =
     (if s \<in> set (map start_iso (SLOTS st)) then SavedReply (upper (take 8 u)) True
      else ErrorReply ''slot_unavailable'')"
  by (simp add: create_booking_def Let_def)

lemma fst_step:
  "fst (step st c) =
     (case c of
        CheckInsurance insurer_name \<Rightarrow> Insurance (check_insurance insurer_name)
      | GetSlots date_pref \<Rightarrow> Slots (get_slots st date_pref)
      | CreateBooking u n p i r s \<Rightarrow> Booking (fst (create_booking st u n p i r s)))"
  by (cases c) (simp_all add: split_beta)

lemma snd_step:
  "snd (step st c) =
     (case c of CreateBooking u n p i r s \<Rightarrow> snd (create_booking st u n p i r s) | _ \<Rightarrow> st)"
  by (cases c) (simp_all add: split_beta)

lemma fst_run_Cons: "fst (run st (c # cs)) = fst (step st c) # fst (run (snd (step st c)) cs)"
  by (simp add: split_beta)

lemma snd_run_Cons: "snd (run st (c # cs)) = snd (run (snd (step st c)) cs)"
  by (simp add: split_beta)

declare step.simps [simp del] run.simps(2) [simp del]

lemma SLOTS_step [simp]: "SLOTS (snd (step st c)) = SLOTS st"
  by (simp add: snd_step split: call.split)

lemma SLOTS_run [simp]: "SLOTS (snd (run st cs)) = SLOTS st"
  by (induction cs arbitrary: st) (simp_all add: snd_run_Cons)

lemma BOOKINGS_step:
  "BOOKINGS (snd (step st c)) = BOOKINGS st @
     (case c of CreateBooking u n p i r s \<Rightarrow>
        (if s \<in> set (map start_iso (SLOTS st))
         then [\<lparr>id' = upper (take 8 u), name = n, phone = p, insurer = i, reason = r, slot_iso = s\<rparr>]
         else [])
      | _ \<Rightarrow> [])"
  by (simp add: snd_step BOOKINGS_create_booking split: call.split)

lemma length_fst_run [simp]: "length (fst (run st cs)) = length cs"
  by (induction cs arbitrary: st) (simp_all add: fst_run_Cons)

lemma stored_id_step [simp]: "stored_id (snd (step st c)) x = stored_id st x"
  by (cases x) simp_all

lemma ids_run:
  "map id' (BOOKINGS (snd (run st cs))) = map id' (BOOKINGS st) @ concat (map (stored_id st) cs)"
proof (induction cs arbitrary: st)
  case Nil
  then show ?case by simp
next
  case (Cons c cs)
  have "map id' (BOOKINGS (snd (step st c))) = map id' (BOOKINGS st) @ stored_id st c"
    by (cases c) (simp_all add: BOOKINGS_step)
  with Cons.IH [of "snd (step st c)"] show ?case
    by (simp add: snd_run_Cons)
qed

lemma count_run:
  assumes "slt \<in> set (map start_iso (SLOTS st))"
  shows "length (filter (\<lambda>b. slot_iso b = slt) (BOOKINGS (snd (run st cs)))) =
         length (filter (\<lambda>b. slot_iso b = slt) (BOOKINGS st)) +
         length (filter (\<lambda>c. booked_slot c = Some slt) cs)"
  using assms
proof (induction cs arbitrary: st)
  case Nil
  then show ?case by simp
next
  case (Cons c cs)
  from Cons.prems have "slt \<in> set (map start_iso (SLOTS (snd (step st c))))" by simp
  from Cons.IH [OF this] Cons.prems show ?case
    by (cases c) (auto simp: snd_run_Cons BOOKINGS_step)
qed

lemma count_run_unknown:
  assumes "slt \<notin> set (map start_iso (SLOTS st))"
  shows "filter (\<lambda>b. slot_iso b = slt) (BOOKINGS (snd (run st cs))) =
         filter (\<lambda>b. slot_iso b = slt) (BOOKINGS st)"
  using assms
proof (induction cs arbitrary: st)
  case Nil
  then show ?case by simp
next
  case (Cons c cs)
  from Cons.prems have "slt \<notin> set (map start_iso (SLOTS (snd (step st c))))" by simp
  from Cons.IH [OF this] Cons.prems show ?case
    by (cases c) (auto simp: snd_run_Cons BOOKINGS_step)
qed

lemma reply_run:
  assumes "i < length cs" "cs ! i = CreateBooking u n p ins r slt"
  shows "fst (run st cs) ! i =
     Booking (if slt \<in> set (map start_iso (SLOTS st)) then SavedReply (upper (take 8 u)) True
              else ErrorReply ''slot_unavailable'')"
  using assms
proof (induction cs arbitrary: st i)
  case Nil
  then show ?case by simp
next
  case (Cons c cs)
  show ?case
  proof (cases i)
    case 0
    with Cons.prems show ?thesis
      by (simp add: fst_run_Cons fst_step fst_create_booking)
  next
    case (Suc j)
    with Cons.prems have "j < length cs" "cs ! j = CreateBooking u n p ins r slt" by simp_all
    from Cons.IH [OF this, of "snd (step st c)"] Suc show ?thesis
      by (simp add: fst_run_Cons)
  qed
qed

lemma prefix_take_conv: "prefix d x \<longleftrightarrow> take (length d) x = d"
  by (metis append_eq_conv_conj prefix_def)

lemma set_get_slots: "set (slots (get_slots st p)) \<subseteq> set (SLOTS st)"
  by (auto simp: get_slots_def Let_def split: option.splits dest: in_set_takeD)

lemma demo_generated: "default_slots demo_now 3 = Inr demo_catalog"
  by code_simp

lemma run_ann: "run demo_state [ann_call] = ([Booking (SavedReply ''3F2B8C1D'' True)], booked_state)"
  by code_simp

section \<open>Trimming\<close>

lemma strip_decomp:
  "n = takeWhile isspace n @ strip n @ rev (takeWhile isspace (rev (dropWhile isspace n)))"
proof -
  let ?m = "dropWhile isspace n"
  have "rev (takeWhile isspace (rev ?m) @ dropWhile isspace (rev ?m)) = rev (rev ?m)"
    by (simp only: takeWhile_dropWhile_id)
  then have "strip n @ rev (takeWhile isspace (rev ?m)) = ?m"
    by (simp only: rev_append rev_rev_ident strip_def)
  then show ?thesis by simp
qed

lemma dropWhile_all: "\<forall>x\<in>set l. P x \<Longrightarrow> dropWhile P (l @ ys) = dropWhile P ys"
  by (induction l) simp_all

lemma strip_sandwich:
  assumes l: "\<forall>x\<in>set l. isspace x" and r: "\<forall>x\<in>set r. isspace x"
    and c: "c \<noteq> []" "\<not> isspace (hd c)" "\<not> isspace (last c)"
  shows "strip (l @ c @ r) = c"
proof -
  have "dropWhile isspace (l @ c @ r) = dropWhile isspace (c @ r)"
    using l by (rule dropWhile_all)
  also have "\<dots> = c @ r"
    using c by (cases c) simp_all
  finally have 1: "dropWhile isspace (l @ c @ r) = c @ r" .
  have "\<forall>x\<in>set (rev r). isspace x" using r by simp
  then have "dropWhile isspace (rev r @ rev c) = dropWhile isspace (rev c)"
    by (rule dropWhile_all)
  also have "\<dots> = rev c"
    using c by (cases c rule: rev_cases) simp_all
  finally show ?thesis by (simp add: strip_def 1)
qed

lemma strip_blank:
  assumes "\<forall>x\<in>set n. isspace x"
  shows "strip n = []"
  using assms by (auto simp: strip_def dest: set_dropWhileD)

lemma accepted_trimmed:
  "c \<in> ACCEPTED_INSURERS \<Longrightarrow> c \<noteq> [] \<and> \<not> isspace (hd c) \<and> \<not> isspace (last c)"
  by (auto simp: ACCEPTED_INSURERS_def isspace_def)

section \<open>Adding days\<close>

lemma next_day_later:
  assumes "next_day t = Inr t'"
  shows "day_before t t'"
  using assms by (auto simp: next_day_def day_before_def split: if_splits)

lemma next_day_time:
  assumes "next_day t = Inr t'"
  shows "hour t' = hour t \<and> minute t' = minute t \<and> second t' = second t \<and>
         microsecond t' = microsecond t"
  using assms by (auto simp: next_day_def split: if_splits)


lemma day_before_trans: "day_before a b \<Longrightarrow> day_before b c \<Longrightarrow> day_before a c"
  by (auto simp: day_before_def)

lemma add_days_later:
  assumes "add_days t k = Inr t'" "0 < k"
  shows "day_before t t'"
  using assms
proof (induction k arbitrary: t)
  case 0
  then show ?case by simp
next
  case (Suc k)
  from Suc.prems(1) obtain t1 where 1: "next_day t = Inr t1" and 2: "add_days t1 k = Inr t'"
    by (auto split: sum.splits)
  show ?case
  proof (cases k)
    case 0
    with 1 2 show ?thesis by (simp add: next_day_later)
  next
    case (Suc j)
    with Suc.IH [OF 2] have "day_before t1 t'" by simp
    with next_day_later [OF 1] show ?thesis by (rule day_before_trans)
  qed
qed

lemma add_days_add:
  "add_days t (j + k) = (case add_days t j of Inl e \<Rightarrow> Inl e | Inr t1 \<Rightarrow> add_days t1 k)"
  by (induction j arbitrary: t) (simp_all split: sum.splits)

lemma add_days_earlier:
  assumes "add_days t k = Inr t'" "j \<le> k"
  shows "\<exists>t1. add_days t j = Inr t1 \<and> add_days t1 (k - j) = Inr t'"
proof -
  from assms(2) have "k = j + (k - j)" by simp
  with assms(1) add_days_add [of t j "k - j"] show ?thesis
    by (auto split: sum.splits)
qed

lemma add_days_mono:
  assumes "add_days t j = Inr a" "add_days t k = Inr b" "j < k"
  shows "day_before a b"
proof -
  from add_days_earlier [OF assms(2), of j] assms(1,3) have "add_days a (k - j) = Inr b"
    by auto
  with assms(3) show ?thesis by (intro add_days_later [of a "k - j"]) simp_all
qed


lemma day_slots_starts: "day_slots base = map mk_slot (day_starts base)"
  by (simp add: day_slots_def day_starts_def split_beta)

lemma slots_loop_ok:
  assumes "\<forall>d\<in>set ds. \<exists>t. add_days now (d + 1) = Inr t"
  shows "slots_loop now ds acc =
     Inr (acc @ concat (map (\<lambda>d. day_slots
       ((projr (add_days now (d + 1)))\<lparr>hour := 0, minute := 0, second := 0, microsecond := 0\<rparr>))
       ds))"
  using assms
proof (induction ds arbitrary: acc)
  case Nil
  then show ?case by simp
next
  case (Cons d ds)
  from Cons.prems obtain t where t: "add_days now (d + 1) = Inr t" by auto
  from Cons.prems have "\<forall>d\<in>set ds. \<exists>t. add_days now (d + 1) = Inr t" by simp
  from Cons.IH [OF this] t show ?case by simp
qed

lemma slots_loop_fails:
  assumes "d \<in> set ds" "add_days now (d + 1) = Inl OverflowError"
  shows "slots_loop now ds acc = Inl OverflowError"
  using assms
proof (induction ds arbitrary: acc)
  case Nil
  then show ?case by simp
next
  case (Cons x ds)
  show ?case
  proof (cases "add_days now (x + 1)")
    case (Inl e)
    then show ?thesis by (cases e) simp
  next
    case (Inr t)
    with Cons show ?thesis by auto
  qed
qed

lemma default_slots_ok:
  assumes "add_days now (nat n_days) = Inr lst"
  shows "default_slots now n_days = Inr (map mk_slot (generated_starts now (nat n_days)))"
proof -
  have "\<forall>d\<in>set [0..<nat n_days]. \<exists>t. add_days now (d + 1) = Inr t"
  proof
    fix d assume "d \<in> set [0..<nat n_days]"
    then have "d + 1 \<le> nat n_days" by simp
    from add_days_earlier [OF assms this] show "\<exists>t. add_days now (d + 1) = Inr t" by blast
  qed
  from slots_loop_ok [OF this, of "[]"] show ?thesis
    by (simp add: default_slots_def generated_starts_def day_slots_starts map_concat comp_def)
qed

lemma default_slots_fails:
  assumes "add_days now (nat n_days) = Inl OverflowError"
  shows "default_slots now n_days = Inl OverflowError"
proof -
  from assms have "0 < nat n_days" by (cases "nat n_days") simp_all
  then have "nat n_days - 1 \<in> set [0..<nat n_days]" "nat n_days - 1 + 1 = nat n_days" by simp_all
  with assms slots_loop_fails [of "nat n_days - 1" "[0..<nat n_days]" now "[]"]
  show ?thesis by (simp add: default_slots_def)
qed


lemma generated_starts_Suc:
  "generated_starts now (Suc n) = generated_starts now n @ day_starts
     ((projr (add_days now (n + 1)))\<lparr>hour := 0, minute := 0, second := 0, microsecond := 0\<rparr>)"
  by (simp add: generated_starts_def)

lemma in_generated_starts:
  assumes "st \<in> set (generated_starts now n)"
  shows "\<exists>d<n. st \<in> set (day_starts
     ((projr (add_days now (d + 1)))\<lparr>hour := 0, minute := 0, second := 0, microsecond := 0\<rparr>))"
  using assms by (auto simp: generated_starts_def)

lemma in_day_starts:
  assumes "st \<in> set (day_starts base)"
  shows "same_day base st \<and> (hour st, minute st) \<in> set daily \<and> second st = second base \<and>
         microsecond st = microsecond base"
  using assms by (auto simp: day_starts_def daily_def same_day_def)


lemma same_day_midnight [simp]:
  "same_day (t\<lparr>hour := h, minute := m, second := s, microsecond := u\<rparr>) x = same_day t x"
  "day_before x (t\<lparr>hour := h, minute := m, second := s, microsecond := u\<rparr>) = day_before x t"
  "day_before (t\<lparr>hour := h, minute := m, second := s, microsecond := u\<rparr>) x = day_before t x"
  by (simp_all add: same_day_def day_before_def)


lemma sorted_day_starts: "sorted_wrt before (day_starts base)"
  by (simp add: day_starts_def daily_def before_def same_day_def time_before_def)

lemma sorted_generated_starts:
  assumes "add_days now n = Inr lst"
  shows "sorted_wrt before (generated_starts now n)"
  using assms
proof (induction n arbitrary: lst)
  case 0
  then show ?case by (simp add: generated_starts_def)
next
  case (Suc n)
  from add_days_earlier [OF Suc.prems, of n] obtain t where t: "add_days now n = Inr t"
    by auto
  let ?base = "(projr (add_days now (n + 1)))\<lparr>hour := 0, minute := 0, second := 0, microsecond := 0\<rparr>"
  have "before x y" if x: "x \<in> set (generated_starts now n)" and y: "y \<in> set (day_starts ?base)"
    for x y
  proof -
    from in_generated_starts [OF x] obtain d where d: "d < n"
      and m: "x \<in> set (day_starts
        ((projr (add_days now (d + 1)))\<lparr>hour := 0, minute := 0, second := 0, microsecond := 0\<rparr>))"
      by blast
    from d have "d + 1 \<le> Suc n" by simp
    from add_days_earlier [OF Suc.prems this] obtain a where a: "add_days now (d + 1) = Inr a"
      by blast
    from d have "d + 1 < Suc n" by simp
    from add_days_mono [OF a Suc.prems this] have ab: "day_before a lst" .
    from in_day_starts [OF m] a have "same_day a x" by simp
    moreover from in_day_starts [OF y] Suc.prems have "same_day lst y" by simp
    ultimately have "day_before x y"
      using ab by (auto simp: day_before_def same_day_def)
    then show ?thesis by (simp add: before_def)
  qed
  with Suc.IH [OF t] sorted_day_starts [of ?base] show ?case
    by (simp add: generated_starts_Suc sorted_wrt_append)
qed

section \<open>The order of the timestamps\<close>

lemma lex_step:
  "length u = length w \<Longrightarrow> (u @ v < w @ z) \<longleftrightarrow> (u < w \<or> (u = w \<and> v < z))"
  by (induction u w rule: list_induct2) auto

lemma digit_char_less: "a < 10 \<Longrightarrow> b < 10 \<Longrightarrow> digit_char a < digit_char b \<longleftrightarrow> a < b"
  by (simp add: digit_char_def less_char_def)

lemma digit_char_0: "digit_char 0 = CHR ''0''"
  by code_simp

lemma dec_digits_small: "n < 10 \<Longrightarrow> dec_digits n = [digit_char n]"
  by (simp add: dec_digits.simps)

lemma dec_digits_large:
  "10 \<le> n \<Longrightarrow> dec_digits n = dec_digits (n div 10) @ [digit_char (n mod 10)]"
  by (subst dec_digits.simps) simp

lemma zero_pad_step:
  assumes "1 \<le> w"
  shows "zero_pad (Suc w) n = zero_pad w (n div 10) @ [digit_char (n mod 10)]"
proof (cases "n < 10")
  case True
  from assms obtain v where v: "w = Suc v" by (cases w) simp_all
  have "replicate v (CHR ''0'') @ [CHR ''0''] = replicate (Suc v) (CHR ''0'')"
    by (simp add: replicate_append_same)
  with True v show ?thesis
    by (simp add: zero_pad_def dec_digits_small digit_char_0 del: replicate_Suc)
next
  case False
  then show ?thesis by (simp add: zero_pad_def dec_digits_large)
qed

lemma zero_pad_1: "n < 10 \<Longrightarrow> zero_pad (Suc 0) n = [digit_char n]"
  by (simp add: zero_pad_def dec_digits_small)

lemma length_zero_pad: "n < 10 ^ Suc w \<Longrightarrow> length (zero_pad (Suc w) n) = Suc w"
proof (induction w arbitrary: n)
  case 0
  then show ?case by (simp add: zero_pad_1)
next
  case (Suc w)
  from Suc.prems have "n div 10 < 10 ^ Suc w" by (simp add: less_mult_imp_div_less)
  from Suc.IH [OF this] show ?case by (simp add: zero_pad_step [of "Suc w"])
qed

lemma zero_pad_mono:
  "x < y \<Longrightarrow> y < 10 ^ Suc w \<Longrightarrow> zero_pad (Suc w) x < zero_pad (Suc w) y"
proof (induction w arbitrary: x y)
  case 0
  then show ?case by (simp add: zero_pad_1 digit_char_less)
next
  case (Suc w)
  from Suc.prems have y: "y div 10 < 10 ^ Suc w" and x: "x div 10 < 10 ^ Suc w"
    by (simp_all add: less_mult_imp_div_less)
  have len: "length (zero_pad (Suc w) (x div 10)) = length (zero_pad (Suc w) (y div 10))"
    using x y by (simp add: length_zero_pad)
  from Suc.prems(1) have "x div 10 \<le> y div 10" by (simp add: div_le_mono)
  then consider "x div 10 < y div 10" | "x div 10 = y div 10" "x mod 10 < y mod 10"
    using Suc.prems(1) by (metis div_mult_mod_eq le_neq_implies_less nat_add_left_cancel_less)
  then show ?case
  proof cases
    case 1
    from Suc.IH [OF 1 y] show ?thesis
      by (simp add: zero_pad_step [of "Suc w"] lex_step [OF len])
  next
    case 2
    then show ?thesis
      by (simp add: zero_pad_step [of "Suc w"] digit_char_less lex_step [OF refl])
  qed
qed

lemma zero_pad_less_iff:
  assumes "x < 10 ^ Suc w" "y < 10 ^ Suc w"
  shows "zero_pad (Suc w) x < zero_pad (Suc w) y \<longleftrightarrow> x < y"
  using zero_pad_mono [of x y w] zero_pad_mono [of y x w] assms
  by (metis less_asym' linorder_neqE_nat less_irrefl)

lemma zero_pad_eq_iff:
  assumes "x < 10 ^ Suc w" "y < 10 ^ Suc w"
  shows "zero_pad (Suc w) x = zero_pad (Suc w) y \<longleftrightarrow> x = y"
  using zero_pad_mono [of x y w] zero_pad_mono [of y x w] assms
  by (metis linorder_neqE_nat less_irrefl)

lemma pad4:
  assumes "n < 10000" "m < 10000"
  shows "length (zero_pad 4 n) = 4 \<and> (zero_pad 4 n < zero_pad 4 m \<longleftrightarrow> n < m) \<and>
    (zero_pad 4 n = zero_pad 4 m \<longleftrightarrow> n = m)"
proof -
  have 1: "Suc 3 = 4" and 2: "(10::nat) ^ 4 = 10000" by simp_all
  from assms have "n < 10 ^ Suc 3" "m < 10 ^ Suc 3" by (simp_all only: 1 2)
  from length_zero_pad [OF this(1)] zero_pad_less_iff [OF this] zero_pad_eq_iff [OF this]
  show ?thesis by (simp only: 1)
qed

lemma pad2:
  assumes "n < 100" "m < 100"
  shows "length (zero_pad 2 n) = 2 \<and> (zero_pad 2 n < zero_pad 2 m \<longleftrightarrow> n < m) \<and>
    (zero_pad 2 n = zero_pad 2 m \<longleftrightarrow> n = m)"
proof -
  have 1: "Suc 1 = 2" and 2: "(10::nat) ^ 2 = 100" by simp_all
  from assms have "n < 10 ^ Suc 1" "m < 10 ^ Suc 1" by (simp_all only: 1 2)
  from length_zero_pad [OF this(1)] zero_pad_less_iff [OF this] zero_pad_eq_iff [OF this]
  show ?thesis by (simp only: 1)
qed

lemma isoformat_less_iff:
  assumes "fits a" "fits b"
  shows "isoformat a < isoformat b \<longleftrightarrow> before a b"
proof -
  from assms have y: "year a < 10000" "year b < 10000" and m: "month a < 100" "month b < 100"
    and d: "day a < 100" "day b < 100" and h: "hour a < 100" "hour b < 100"
    and mi: "minute a < 100" "minute b < 100" and s: "second a < 100" "second b < 100"
    and u: "microsecond a = 0" "microsecond b = 0"
    by (simp_all add: fits_def)
  note Y = pad4 [OF y] pad4 [OF y(2) y(1)]
  note M = pad2 [OF m] pad2 [OF m(2) m(1)]
  note D = pad2 [OF d] pad2 [OF d(2) d(1)]
  note H = pad2 [OF h] pad2 [OF h(2) h(1)]
  note MI = pad2 [OF mi] pad2 [OF mi(2) mi(1)]
  note S = pad2 [OF s] pad2 [OF s(2) s(1)]
  have "isoformat a < isoformat b \<longleftrightarrow>
    (year a < year b \<or> (year a = year b \<and>
      (month a < month b \<or> (month a = month b \<and>
        (day a < day b \<or> (day a = day b \<and>
          (hour a < hour b \<or> (hour a = hour b \<and>
            (minute a < minute b \<or> (minute a = minute b \<and> second a < second b))))))))))"
    unfolding isoformat_def u
    by (simp add: lex_step Y M D H MI S)
  also have "\<dots> \<longleftrightarrow> before a b"
    using u by (auto simp: before_def day_before_def same_day_def time_before_def)
  finally show ?thesis .
qed

lemma filter_take_map:
  "take k (filter P (map f xs)) = map f (take k (filter (\<lambda>x. P (f x)) xs))"
  by (simp add: filter_map take_map comp_def)

lemma sorted_take_filter:
  "sorted_wrt R xs \<Longrightarrow> sorted_wrt R (take k (filter P xs))"
  by (simp add: sorted_wrt_filter sorted_wrt_take)

lemma days_in_month_le: "days_in_month y m \<le> 31"
  by (simp add: days_in_month_def)

lemma valid_in_range: "valid_datetime t \<Longrightarrow> in_range t"
  using days_in_month_le [of "year t" "month t"] by (simp add: valid_datetime_def in_range_def)

lemma next_day_in_range:
  assumes "next_day t = Inr t'" "in_range t"
  shows "in_range t'"
  using assms days_in_month_le [of "year t" "month t"]
  by (auto simp: next_day_def in_range_def split: if_splits)

lemma add_days_in_range:
  assumes "add_days t k = Inr t'" "in_range t"
  shows "in_range t'"
  using assms
proof (induction k arbitrary: t)
  case 0
  then show ?case by simp
next
  case (Suc k)
  from Suc.prems(1) obtain t1 where 1: "next_day t = Inr t1" and 2: "add_days t1 k = Inr t'"
    by (auto split: sum.splits)
  from Suc.IH [OF 2 next_day_in_range [OF 1 Suc.prems(2)]] show ?case .
qed

lemma fits_generated:
  assumes ok: "add_days now n = Inr lst" and now: "valid_datetime now"
    and st: "st \<in> set (generated_starts now n)"
  shows "fits st"
proof -
  from in_generated_starts [OF st] obtain d where d: "d < n"
    and m: "st \<in> set (day_starts
      ((projr (add_days now (d + 1)))\<lparr>hour := 0, minute := 0, second := 0, microsecond := 0\<rparr>))"
    by blast
  from d have "d + 1 \<le> n" by simp
  from add_days_earlier [OF ok this] obtain t where t: "add_days now (d + 1) = Inr t" by blast
  from add_days_in_range [OF t valid_in_range [OF now]] have "in_range t" .
  moreover from in_day_starts [OF m] t have "same_day t st" "(hour st, minute st) \<in> set daily"
    "second st = 0" "microsecond st = 0" by simp_all
  ultimately show ?thesis
    by (auto simp: fits_def in_range_def same_day_def daily_def)
qed

lemma sorted_isoformat:
  assumes "sorted_wrt before xs" "\<forall>x\<in>set xs. fits x"
  shows "sorted_wrt (<) (map isoformat xs)"
proof -
  from assms have "sorted_wrt (\<lambda>a b. isoformat a < isoformat b) xs"
    by (auto simp: isoformat_less_iff elim!: sorted_wrt_mono_rel [rotated])
  then show ?thesis by (simp add: sorted_wrt_map)
qed

lemma start_iso_mk_slot: "map start_iso (map mk_slot xs) = map isoformat xs"
  by (simp add: mk_slot_def comp_def)

lemma length_isoformat: "fits t \<Longrightarrow> length (isoformat t) = 19"
  using pad4 [of "year t" "year t"] pad2 [of "month t" "month t"] pad2 [of "day t" "day t"]
    pad2 [of "hour t" "hour t"] pad2 [of "minute t" "minute t"] pad2 [of "second t" "second t"]
  by (simp add: fits_def isoformat_def)

lemma get_slots_shape:
  "\<exists>k P. k \<le> 6 \<and> slots (get_slots st date_pref) = take k (filter P (SLOTS st))"
proof (cases "\<exists>d. date_pref = Some d \<and> d \<noteq> [] \<and>
    filter (\<lambda>s. prefix d (start_iso s)) (SLOTS st) \<noteq> []")
  case True
  then obtain d where "date_pref = Some d" "d \<noteq> []"
    "filter (\<lambda>s. prefix d (start_iso s)) (SLOTS st) \<noteq> []" by blast
  then have "slots (get_slots st date_pref) =
      take 3 (filter (\<lambda>s. prefix d (start_iso s)) (SLOTS st))"
    by (simp add: get_slots_def)
  moreover have "(3::nat) \<le> 6" by simp
  ultimately show ?thesis by blast
next
  case False
  then have "slots (get_slots st date_pref) = take 6 (filter (\<lambda>s. True) (SLOTS st))"
    by (cases date_pref) (auto simp: get_slots_def Let_def)
  moreover have "(6::nat) \<le> 6" by simp
  ultimately show ?thesis by blast
qed

section \<open>The claims\<close>

subsection \<open>Bookings per slot\<close>

text \<open>
  Claim C1, as the code has it. \<^verbatim>\<open>create_booking\<close> never looks at \<^verbatim>\<open>BOOKINGS\<close>
  before it appends: a call for a slot start of the catalog always succeeds. After any
  sequence of tool calls, the ledger holds, for a slot start of the catalog, the
  entries it held before plus one for every call made for that slot start, and each of
  those calls got the reply \<^verbatim>\<open>saved: true\<close>; a call for a start that is not in the
  catalog got \<^verbatim>\<open>slot_unavailable\<close>, and the ledger has no more entries for such a
  start than before.
\<close>

theorem bookings_per_slot_count:
  "(slt \<in> start_iso ` set (SLOTS st) \<longrightarrow>
      length (filter (\<lambda>b. slot_iso b = slt) (BOOKINGS (snd (run st cs)))) =
      length (filter (\<lambda>b. slot_iso b = slt) (BOOKINGS st)) +
      length (filter (\<lambda>c. booked_slot c = Some slt) cs))
   \<and> (slt \<notin> start_iso ` set (SLOTS st) \<longrightarrow>
      filter (\<lambda>b. slot_iso b = slt) (BOOKINGS (snd (run st cs))) =
      filter (\<lambda>b. slot_iso b = slt) (BOOKINGS st))
   \<and> (\<forall>k<length cs. \<forall>u n p i r.
        cs ! k = CreateBooking u n p i r slt \<longrightarrow>
        fst (run st cs) ! k =
          Booking (if slt \<in> start_iso ` set (SLOTS st) then SavedReply (upper (take 8 u)) True
                   else ErrorReply ''slot_unavailable''))"
  using count_run [of slt st cs] count_run_unknown [of slt st cs]
    reply_run [of _ cs _ _ _ _ _ slt st] by simp

theorem bookings_per_slot_witness:
  "length (filter (\<lambda>b. slot_iso b = ''2025-06-10T10:00:00'')
     (BOOKINGS (snd (run booked_state
        [ann_call, GetSlots None, CreateBooking ''9e8d7c6b5a4f4e3d8c2b1a0f9e8d7c6b'' ''Bob Ray''
           ''5550101'' ''Aetna'' ''rash'' ''2025-06-10T10:00:00''])))) = 3
   \<and> fst (run booked_state
        [ann_call, GetSlots None, CreateBooking ''9e8d7c6b5a4f4e3d8c2b1a0f9e8d7c6b'' ''Bob Ray''
           ''5550101'' ''Aetna'' ''rash'' ''2025-06-10T10:00:00'']) ! 2 =
       Booking (SavedReply ''9E8D7C6B'' True)"
proof -
  let ?cs = "[ann_call, GetSlots None, CreateBooking ''9e8d7c6b5a4f4e3d8c2b1a0f9e8d7c6b''
    ''Bob Ray'' ''5550101'' ''Aetna'' ''rash'' ''2025-06-10T10:00:00'']"
  have 1: "''2025-06-10T10:00:00'' \<in> start_iso ` set (SLOTS booked_state)"
    by (simp add: booked_state_def demo_catalog_def)
  have 2: "length (filter (\<lambda>b. slot_iso b = ''2025-06-10T10:00:00'') (BOOKINGS booked_state)) = 1"
    by (simp add: booked_state_def ann_def)
  have 3: "length (filter (\<lambda>c. booked_slot c = Some ''2025-06-10T10:00:00'') ?cs) = 2"
    by (simp add: ann_call_def)
  have 4: "upper (take 8 ''9e8d7c6b5a4f4e3d8c2b1a0f9e8d7c6b'') = ''9E8D7C6B''"
    by code_simp
  note t = bookings_per_slot_count [of "''2025-06-10T10:00:00''" booked_state ?cs]
  from t 1 2 3 have a: "length (filter (\<lambda>b. slot_iso b = ''2025-06-10T10:00:00'')
     (BOOKINGS (snd (run booked_state ?cs)))) = 3" by simp
  from t have "\<forall>k<length ?cs. \<forall>u n p i r.
        ?cs ! k = CreateBooking u n p i r ''2025-06-10T10:00:00'' \<longrightarrow>
        fst (run booked_state ?cs) ! k =
          Booking (if ''2025-06-10T10:00:00'' \<in> start_iso ` set (SLOTS booked_state)
                   then SavedReply (upper (take 8 u)) True
                   else ErrorReply ''slot_unavailable'')" by blast
  then have "fst (run booked_state ?cs) ! 2 =
          Booking (if ''2025-06-10T10:00:00'' \<in> start_iso ` set (SLOTS booked_state)
                   then SavedReply (upper (take 8 ''9e8d7c6b5a4f4e3d8c2b1a0f9e8d7c6b'')) True
                   else ErrorReply ''slot_unavailable'')"
    by (simp del: imp_disjL)
  with 1 4 have b: "fst (run booked_state ?cs) ! 2 = Booking (SavedReply ''9E8D7C6B'' True)"
    by simp
  from a b show ?thesis by simp
qed

text \<open>
  The claim as the specification states it fails: two calls for the same slot start,
  from the empty ledger, both succeed, and the ledger then holds two entries with that
  \<^verbatim>\<open>slot_iso\<close>.
\<close>

theorem double_booking_counterexample:
  "run demo_state
     [CreateBooking ''3f2b8c1de4a74f0e9b6a5d4c3b2a1908'' ''Ann Lee'' ''5550100'' ''Cigna'' ''cough''
        ''2025-06-10T10:00:00'',
      CreateBooking ''9e8d7c6b5a4f4e3d8c2b1a0f9e8d7c6b'' ''Bob Ray'' ''5550101'' ''Aetna'' ''rash''
        ''2025-06-10T10:00:00''] =
     ([Booking (SavedReply ''3F2B8C1D'' True), Booking (SavedReply ''9E8D7C6B'' True)],
      \<lparr>SLOTS = demo_catalog,
       BOOKINGS =
        [\<lparr>id' = ''3F2B8C1D'', name = ''Ann Lee'', phone = ''5550100'', insurer = ''Cigna'',
          reason = ''cough'', slot_iso = ''2025-06-10T10:00:00''\<rparr>,
         \<lparr>id' = ''9E8D7C6B'', name = ''Bob Ray'', phone = ''5550101'', insurer = ''Aetna'',
          reason = ''rash'', slot_iso = ''2025-06-10T10:00:00''\<rparr>]\<rparr>)"
  by code_simp

subsection \<open>The error reply\<close>

text \<open>
  Claim C2, as the code has it. \<^verbatim>\<open>create_booking\<close> replies
  \<^verbatim>\<open>{"error": "slot_unavailable"}\<close> if and only if \<^verbatim>\<open>slot_iso\<close> is not the start of a
  slot of the catalog; for a start of the catalog it replies with the confirmation id
  and \<^verbatim>\<open>saved: true\<close>, whatever the ledger holds.
\<close>

theorem create_booking_error_iff_unknown_slot:
  "(fst (create_booking st u n p i r s) = ErrorReply ''slot_unavailable'' \<longleftrightarrow>
      s \<notin> start_iso ` set (SLOTS st))
   \<and> (s \<in> start_iso ` set (SLOTS st) \<longrightarrow>
        fst (create_booking st u n p i r s) = SavedReply (upper (take 8 u)) True)"
  by (simp add: fst_create_booking)

theorem create_booking_error_witness:
  "fst (create_booking booked_state ''9e8d7c6b5a4f4e3d8c2b1a0f9e8d7c6b'' ''Bob Ray'' ''5550101''
      ''Aetna'' ''rash'' ''2025-06-10T10:00:00'') = SavedReply ''9E8D7C6B'' True
   \<and> fst (create_booking booked_state ''9e8d7c6b5a4f4e3d8c2b1a0f9e8d7c6b'' ''Bob Ray'' ''5550101''
      ''Aetna'' ''rash'' ''2025-06-13T10:00:00'') = ErrorReply ''slot_unavailable''"
proof -
  have 1: "''2025-06-10T10:00:00'' \<in> start_iso ` set (SLOTS booked_state)"
    by (simp add: booked_state_def demo_catalog_def)
  have 2: "''2025-06-13T10:00:00'' \<notin> start_iso ` set (SLOTS booked_state)"
    by (simp add: booked_state_def demo_catalog_def)
  have 3: "upper (take 8 ''9e8d7c6b5a4f4e3d8c2b1a0f9e8d7c6b'') = ''9E8D7C6B''"
    by code_simp
  from 1 2 3
    create_booking_error_iff_unknown_slot [of booked_state "''9e8d7c6b5a4f4e3d8c2b1a0f9e8d7c6b''"
      "''Bob Ray''" "''5550101''" "''Aetna''" "''rash''" "''2025-06-10T10:00:00''"]
    create_booking_error_iff_unknown_slot [of booked_state "''9e8d7c6b5a4f4e3d8c2b1a0f9e8d7c6b''"
      "''Bob Ray''" "''5550101''" "''Aetna''" "''rash''" "''2025-06-13T10:00:00''"]
  show ?thesis by simp
qed

text \<open>
  The claim as stated fails: a slot start that a booking of the ledger already
  references is not rejected.
\<close>

theorem booked_slot_not_rejected_counterexample:
  "''2025-06-10T10:00:00'' \<in> slot_iso ` set (BOOKINGS booked_state)
   \<and> fst (create_booking booked_state ''9e8d7c6b5a4f4e3d8c2b1a0f9e8d7c6b'' ''Bob Ray'' ''5550101''
      ''Aetna'' ''rash'' ''2025-06-10T10:00:00'') = SavedReply ''9E8D7C6B'' True"
  by code_simp

subsection \<open>Insurance\<close>

text \<open>
  Claim C3. \<^verbatim>\<open>check_insurance\<close> accepts a name if and only if the name is one of the
  four entries of the registry between two runs of whitespace, that is if and only if
  the trimmed name is an entry; the comparison is equality of strings, so it
  distinguishes upper and lower case. \<^verbatim>\<open>" Cigna "\<close> is accepted, \<^verbatim>\<open>"cigna"\<close> is not,
  a name of whitespace only (the empty name too) is not, and every name has a reply.
\<close>

theorem check_insurance_exact_after_trim:
  "(accepted (check_insurance n) \<longleftrightarrow>
      (\<exists>l c r. n = l @ c @ r \<and> (\<forall>x\<in>set l. isspace x) \<and> (\<forall>x\<in>set r. isspace x) \<and>
         c \<in> ACCEPTED_INSURERS))
   \<and> accepted (check_insurance n) = (strip n \<in> ACCEPTED_INSURERS)
   \<and> accepted (check_insurance '' Cigna '')
   \<and> \<not> accepted (check_insurance ''cigna'')
   \<and> ((\<forall>x\<in>set n. isspace x) \<longrightarrow> \<not> accepted (check_insurance n))
   \<and> (\<exists>b. check_insurance n = \<lparr>accepted = b\<rparr>)"
proof -
  have a: "accepted (check_insurance n) = (strip n \<in> ACCEPTED_INSURERS)"
    by (simp add: check_insurance_def)
  have "strip n \<in> ACCEPTED_INSURERS \<longleftrightarrow>
      (\<exists>l c r. n = l @ c @ r \<and> (\<forall>x\<in>set l. isspace x) \<and> (\<forall>x\<in>set r. isspace x) \<and>
         c \<in> ACCEPTED_INSURERS)" (is "?L \<longleftrightarrow> ?R")
  proof
    assume ?L
    have "\<forall>x\<in>set (takeWhile isspace n). isspace x"
      by (auto dest: set_takeWhileD)
    moreover have "\<forall>x\<in>set (rev (takeWhile isspace (rev (dropWhile isspace n)))). isspace x"
      by (auto dest: set_takeWhileD)
    ultimately show ?R
      using strip_decomp [of n] \<open>?L\<close> by blast
  next
    assume ?R
    then obtain l c r where n: "n = l @ c @ r" and l: "\<forall>x\<in>set l. isspace x"
      and r: "\<forall>x\<in>set r. isspace x" and c: "c \<in> ACCEPTED_INSURERS" by blast
    from accepted_trimmed [OF c] l r have "strip (l @ c @ r) = c"
      by (intro strip_sandwich) simp_all
    with n c show ?L by simp
  qed
  with a have b: "accepted (check_insurance n) \<longleftrightarrow>
      (\<exists>l c r. n = l @ c @ r \<and> (\<forall>x\<in>set l. isspace x) \<and> (\<forall>x\<in>set r. isspace x) \<and>
         c \<in> ACCEPTED_INSURERS)" by simp
  have c: "accepted (check_insurance '' Cigna '')"
    by (simp add: check_insurance_def strip_def isspace_def ACCEPTED_INSURERS_def)
  have d: "\<not> accepted (check_insurance ''cigna'')"
    by (simp add: check_insurance_def strip_def isspace_def ACCEPTED_INSURERS_def)
  have e: "(\<forall>x\<in>set n. isspace x) \<longrightarrow> \<not> accepted (check_insurance n)"
    by (simp add: a strip_blank ACCEPTED_INSURERS_def)
  have f: "\<exists>b. check_insurance n = \<lparr>accepted = b\<rparr>"
    by (simp add: check_insurance_def)
  from a b c d e f show ?thesis by blast
qed

theorem check_insurance_witness:
  "accepted (check_insurance [CHR 0x09, CHR ''B'', CHR ''l'', CHR ''u'', CHR ''e'', CHR '' '',
      CHR ''C'', CHR ''r'', CHR ''o'', CHR ''s'', CHR ''s'', CHR 0x0A])
   \<and> \<not> accepted (check_insurance [CHR '' '', CHR 0x09, CHR '' ''])"
proof -
  let ?n = "[CHR 0x09, CHR ''B'', CHR ''l'', CHR ''u'', CHR ''e'', CHR '' '',
      CHR ''C'', CHR ''r'', CHR ''o'', CHR ''s'', CHR ''s'', CHR 0x0A]"
  let ?b = "[CHR '' '', CHR 0x09, CHR '' '']"
  have 1: "strip ?n \<in> ACCEPTED_INSURERS"
    by (simp add: strip_def isspace_def ACCEPTED_INSURERS_def)
  have 2: "\<forall>x\<in>set ?b. isspace x"
    by (simp add: isspace_def)
  from 1 check_insurance_exact_after_trim [of ?n] have "accepted (check_insurance ?n)"
    by blast
  moreover from 2 check_insurance_exact_after_trim [of ?b] have "\<not> accepted (check_insurance ?b)"
    by blast
  ultimately show ?thesis by simp
qed

subsection \<open>Querying the catalog\<close>

text \<open>
  Claim C4. The catalog is what \<open>default_slots\<close> returned for a datetime \<open>now\<close> of the
  library. A slot falls on a date when the first ten characters of its \<^verbatim>\<open>start_iso\<close>,
  the \<^verbatim>\<open>YYYY-MM-DD\<close> part, are the preference. If a preference is given and a slot
  falls on it, \<^verbatim>\<open>get_slots\<close> returns the first three such slots at most; with no
  preference, or with a date on which no slot falls, it returns the first six slots of
  the catalog at most. Whatever the preference, the result has six slots of the catalog
  at most and is in ascending order of start: the \<^verbatim>\<open>start_iso\<close> strings ascend in the
  order of strings, and they are the \<^verbatim>\<open>isoformat\<close> of start times that ascend. An
  empty catalog gives an empty list, and every call has a reply.
\<close>

theorem get_slots_query:
  assumes now: "valid_datetime now"
    and gen: "default_slots now n_days = Inr (SLOTS st)"
  shows "(\<forall>d. date_pref = Some d \<and> (\<exists>s\<in>set (SLOTS st). take 10 (start_iso s) = d) \<longrightarrow>
            slots (get_slots st date_pref) =
              take 3 (filter (\<lambda>s. take 10 (start_iso s) = d) (SLOTS st)))
         \<and> (date_pref = None \<or>
             (\<exists>d. date_pref = Some d \<and> length d = 10 \<and>
                  \<not> (\<exists>s\<in>set (SLOTS st). take 10 (start_iso s) = d)) \<longrightarrow>
            slots (get_slots st date_pref) = take 6 (SLOTS st))
         \<and> length (slots (get_slots st date_pref)) \<le> 6
         \<and> set (slots (get_slots st date_pref)) \<subseteq> set (SLOTS st)
         \<and> sorted_wrt (<) (map start_iso (slots (get_slots st date_pref)))
         \<and> (\<exists>starts.
               slots (get_slots st date_pref) =
                 map (\<lambda>start. \<lparr>start_iso = isoformat start, duration_min = 20\<rparr>) starts
               \<and> sorted_wrt before starts)
         \<and> (SLOTS st = [] \<longrightarrow> slots (get_slots st date_pref) = [])
         \<and> (\<exists>r. get_slots st date_pref = \<lparr>slots = r\<rparr>)"
proof -
  let ?all = "generated_starts now (nat n_days)"
  let ?res = "slots (get_slots st date_pref)"
  have mk: "mk_slot = (\<lambda>start. \<lparr>start_iso = isoformat start, duration_min = 20\<rparr>)"
    by (rule ext) (simp add: mk_slot_def)
  from gen have "add_days now (nat n_days) \<noteq> Inl OverflowError"
    using default_slots_fails [of now n_days] by auto
  then obtain lst where lst: "add_days now (nat n_days) = Inr lst"
    by (cases "add_days now (nat n_days)") (auto intro: error.exhaust)
  from default_slots_ok [OF lst] gen have cat: "SLOTS st = map mk_slot ?all" by simp
  have srt: "sorted_wrt before ?all"
    using lst by (rule sorted_generated_starts)
  have fit: "\<forall>x\<in>set ?all. fits x"
    using fits_generated [OF lst now] by blast
  have len: "length (start_iso s) = 19" if "s \<in> set (SLOTS st)" for s
    using that fit by (auto simp: cat mk_slot_def length_isoformat)
  have a: "?res = take 3 (filter (\<lambda>s. take 10 (start_iso s) = d) (SLOTS st))"
    if d: "date_pref = Some d" and m: "\<exists>s\<in>set (SLOTS st). take 10 (start_iso s) = d" for d
  proof -
    from m len have l: "length d = 10" by auto
    then have "d \<noteq> []" by auto
    with d m l show ?thesis
      by (auto simp: get_slots_def Let_def prefix_take_conv filter_empty_conv)
  qed
  have b: "?res = take 6 (SLOTS st)"
    if "date_pref = None \<or> (\<exists>d. date_pref = Some d \<and> length d = 10 \<and>
                  \<not> (\<exists>s\<in>set (SLOTS st). take 10 (start_iso s) = d))"
    using that by (auto simp: get_slots_def Let_def prefix_take_conv filter_empty_conv)
  from get_slots_shape [of st date_pref] obtain k P where k: "k \<le> 6"
    and shape: "?res = take k (filter P (SLOTS st))" by blast
  let ?r = "take k (filter (\<lambda>x. P (mk_slot x)) ?all)"
  have r: "?res = map mk_slot ?r"
    by (simp only: shape cat filter_take_map)
  have s: "sorted_wrt before ?r" using srt by (rule sorted_take_filter)
  have "set ?r \<subseteq> set ?all" by (auto dest: in_set_takeD)
  with fit have "\<forall>x\<in>set ?r. fits x" by blast
  from sorted_isoformat [OF s this]
  have c: "sorted_wrt (<) (map start_iso ?res)"
    by (simp only: r start_iso_mk_slot)
  from r s mk have d: "\<exists>starts.
               ?res = map (\<lambda>start. \<lparr>start_iso = isoformat start, duration_min = 20\<rparr>) starts
               \<and> sorted_wrt before starts" by auto
  from k have e: "length ?res \<le> 6" by (simp add: shape)
  have f: "set ?res \<subseteq> set (SLOTS st)" by (auto simp: shape dest: in_set_takeD)
  have g: "SLOTS st = [] \<longrightarrow> ?res = []" by (simp add: shape)
  have h: "\<exists>r. get_slots st date_pref = \<lparr>slots = r\<rparr>"
    by (simp add: get_slots_def Let_def split: option.splits)
  from a have A: "\<forall>d. date_pref = Some d \<and> (\<exists>s\<in>set (SLOTS st). take 10 (start_iso s) = d) \<longrightarrow>
            ?res = take 3 (filter (\<lambda>s. take 10 (start_iso s) = d) (SLOTS st))"
    by blast
  from b have B: "date_pref = None \<or>
             (\<exists>d. date_pref = Some d \<and> length d = 10 \<and>
                  \<not> (\<exists>s\<in>set (SLOTS st). take 10 (start_iso s) = d)) \<longrightarrow>
            ?res = take 6 (SLOTS st)"
    by blast
  from A B e f c d g h show ?thesis by (intro conjI)
qed

theorem get_slots_query_witness:
  "slots (get_slots demo_state (Some ''2025-06-11'')) =
     [\<lparr>start_iso = ''2025-06-11T10:00:00'', duration_min = 20\<rparr>,
      \<lparr>start_iso = ''2025-06-11T14:30:00'', duration_min = 20\<rparr>,
      \<lparr>start_iso = ''2025-06-11T16:00:00'', duration_min = 20\<rparr>]
   \<and> sorted_wrt (<) (map start_iso (slots (get_slots demo_state (Some ''2025-06-11''))))
   \<and> slots (get_slots demo_state (Some ''2025-07-01'')) = take 6 demo_catalog
   \<and> slots (get_slots demo_state None) = take 6 demo_catalog
   \<and> sorted_wrt (<) (map start_iso (slots (get_slots demo_state None)))"
proof -
  have now: "valid_datetime demo_now"
    by (simp add: valid_datetime_def demo_now_def days_in_month_def)
  have gen: "default_slots demo_now 3 = Inr (SLOTS demo_state)"
    by (simp add: demo_generated demo_state_def)
  note a = get_slots_query [OF now gen, of "Some ''2025-06-11''"]
  note b = get_slots_query [OF now gen, of "Some ''2025-07-01''"]
  note c = get_slots_query [OF now gen, of None]
  have m: "\<exists>s\<in>set (SLOTS demo_state). take 10 (start_iso s) = ''2025-06-11''"
    by (simp add: demo_state_def demo_catalog_def)
  have n: "\<not> (\<exists>s\<in>set (SLOTS demo_state). take 10 (start_iso s) = ''2025-07-01'')"
    by (simp add: demo_state_def demo_catalog_def)
  from a m have "slots (get_slots demo_state (Some ''2025-06-11'')) =
      take 3 (filter (\<lambda>s. take 10 (start_iso s) = ''2025-06-11'') (SLOTS demo_state))"
    by blast
  then have a1: "slots (get_slots demo_state (Some ''2025-06-11'')) =
     [\<lparr>start_iso = ''2025-06-11T10:00:00'', duration_min = 20\<rparr>,
      \<lparr>start_iso = ''2025-06-11T14:30:00'', duration_min = 20\<rparr>,
      \<lparr>start_iso = ''2025-06-11T16:00:00'', duration_min = 20\<rparr>]"
    by (simp add: demo_state_def demo_catalog_def)
  from a have a2: "sorted_wrt (<) (map start_iso (slots (get_slots demo_state (Some ''2025-06-11''))))"
    by blast
  from b n have "slots (get_slots demo_state (Some ''2025-07-01'')) = take 6 (SLOTS demo_state)"
    by simp
  then have b1: "slots (get_slots demo_state (Some ''2025-07-01'')) = take 6 demo_catalog"
    by (simp add: demo_state_def)
  from c have "slots (get_slots demo_state None) = take 6 (SLOTS demo_state)"
    by blast
  then have c1: "slots (get_slots demo_state None) = take 6 demo_catalog"
    by (simp add: demo_state_def)
  from c have c2: "sorted_wrt (<) (map start_iso (slots (get_slots demo_state None)))"
    by blast
  from a1 a2 b1 c1 c2 show ?thesis by blast
qed

subsection \<open>The generated catalog\<close>



subsection \<open>Confirmation ids\<close>

text \<open>
  Claim C6, as the code has it. A successful \<^verbatim>\<open>create_booking\<close> stores the first eight
  characters of the uuid drawn in the call, in upper case, and compares them with
  nothing: after any sequence of tool calls the ids of the ledger are the ids it held
  before, followed by the tokens of the successful calls in their order. The ids are
  pairwise distinct exactly when that list is.
\<close>

theorem stored_ids_are_the_drawn_tokens:
  "map id' (BOOKINGS (snd (run st cs))) = map id' (BOOKINGS st) @ concat (map (stored_id st) cs)
   \<and> (distinct (map id' (BOOKINGS (snd (run st cs)))) \<longleftrightarrow>
        distinct (map id' (BOOKINGS st) @ concat (map (stored_id st) cs)))"
  by (simp only: ids_run)

text \<open>
  The claim as stated fails: when two uuids start with the same eight digits, the
  ledger holds the id twice.
\<close>

theorem repeated_token_counterexample:
  "run demo_state
     [CreateBooking ''3f2b8c1de4a74f0e9b6a5d4c3b2a1908'' ''Ann Lee'' ''5550100'' ''Cigna'' ''cough''
        ''2025-06-10T10:00:00'',
      CreateBooking ''3f2b8c1d00004f0e9b6a5d4c3b2a1908'' ''Bob Ray'' ''5550101'' ''Aetna'' ''rash''
        ''2025-06-11T14:30:00''] =
     ([Booking (SavedReply ''3F2B8C1D'' True), Booking (SavedReply ''3F2B8C1D'' True)],
      \<lparr>SLOTS = demo_catalog,
       BOOKINGS =
        [\<lparr>id' = ''3F2B8C1D'', name = ''Ann Lee'', phone = ''5550100'', insurer = ''Cigna'',
          reason = ''cough'', slot_iso = ''2025-06-10T10:00:00''\<rparr>,
         \<lparr>id' = ''3F2B8C1D'', name = ''Bob Ray'', phone = ''5550101'', insurer = ''Aetna'',
          reason = ''rash'', slot_iso = ''2025-06-11T14:30:00''\<rparr>]\<rparr>)"
  by code_simp

subsection \<open>Existing bookings\<close>

text \<open>
  Claim C7. After one tool call, and after any sequence of tool calls, the ledger starts
  with the entries it had before, unchanged and in their places. \<^verbatim>\<open>check_insurance\<close>
  and \<^verbatim>\<open>get_slots\<close> leave the globals as they were, and so does a
  \<^verbatim>\<open>create_booking\<close> that replies with an error.
\<close>

theorem existing_bookings_unchanged:
  "take (length (BOOKINGS st)) (BOOKINGS (snd (step st c))) = BOOKINGS st
   \<and> take (length (BOOKINGS st)) (BOOKINGS (snd (run st cs))) = BOOKINGS st
   \<and> snd (step st (CheckInsurance insurer_name)) = st
   \<and> snd (step st (GetSlots date_pref)) = st
   \<and> (fst (create_booking st u n p i r s) = ErrorReply e \<longrightarrow>
        snd (create_booking st u n p i r s) = st)"
proof -
  have a: "take (length (BOOKINGS st)) (BOOKINGS (snd (step st c))) = BOOKINGS st" for st c
    by (simp add: BOOKINGS_step)
  have b: "take (length (BOOKINGS st)) (BOOKINGS (snd (run st cs))) = BOOKINGS st"
  proof (induction cs arbitrary: st)
    case Nil
    then show ?case by simp
  next
    case (Cons c cs)
    have "take (length (BOOKINGS st)) (BOOKINGS (snd (run (snd (step st c)) cs))) =
          take (length (BOOKINGS st)) (take (length (BOOKINGS (snd (step st c))))
            (BOOKINGS (snd (run (snd (step st c)) cs))))"
      by (simp add: BOOKINGS_step min_def)
    also have "\<dots> = take (length (BOOKINGS st)) (BOOKINGS (snd (step st c)))"
      by (simp only: Cons.IH)
    also have "\<dots> = BOOKINGS st" by (rule a)
    finally show ?case by (simp add: snd_run_Cons)
  qed
  have c: "snd (step st (CheckInsurance insurer_name)) = st" by (simp add: snd_step)
  have d: "snd (step st (GetSlots date_pref)) = st" by (simp add: snd_step)
  have e: "fst (create_booking st u n p i r s) = ErrorReply e \<longrightarrow>
        snd (create_booking st u n p i r s) = st"
    by (simp add: create_booking_def Let_def)
  from a b c d e show ?thesis by blast
qed

theorem existing_bookings_witness:
  "take 1 (BOOKINGS (snd (step booked_state
      (CreateBooking ''9e8d7c6b5a4f4e3d8c2b1a0f9e8d7c6b'' ''Bob Ray'' ''5550101'' ''Aetna''
         ''rash'' ''2025-06-10T10:00:00'')))) = [ann]
   \<and> snd (create_booking booked_state ''9e8d7c6b5a4f4e3d8c2b1a0f9e8d7c6b'' ''Bob Ray'' ''5550101''
        ''Aetna'' ''rash'' ''2025-06-13T10:00:00'') = booked_state"
proof -
  have 1: "length (BOOKINGS booked_state) = 1" "BOOKINGS booked_state = [ann]"
    by (simp_all add: booked_state_def)
  have 2: "fst (create_booking booked_state ''9e8d7c6b5a4f4e3d8c2b1a0f9e8d7c6b'' ''Bob Ray''
      ''5550101'' ''Aetna'' ''rash'' ''2025-06-13T10:00:00'') = ErrorReply ''slot_unavailable''"
    by (simp add: create_booking_def booked_state_def demo_catalog_def)
  from 1 2
    existing_bookings_unchanged [of booked_state
      "CreateBooking ''9e8d7c6b5a4f4e3d8c2b1a0f9e8d7c6b'' ''Bob Ray'' ''5550101'' ''Aetna''
         ''rash'' ''2025-06-10T10:00:00''" "[]" "[]" None
      "''9e8d7c6b5a4f4e3d8c2b1a0f9e8d7c6b''" "''Bob Ray''" "''5550101''" "''Aetna''" "''rash''"
      "''2025-06-13T10:00:00''" "''slot_unavailable''"]
  show ?thesis by simp
qed

subsection \<open>Catalog containment\<close>

text \<open>
  Claim C8. A slot that \<^verbatim>\<open>get_slots\<close> returned, with or without a date preference,
  can be booked: after any further tool calls, \<^verbatim>\<open>create_booking\<close> with that slot's
  start replies \<^verbatim>\<open>saved: true\<close>. This holds for every ledger, so also for one where no
  booking references the slot.
\<close>

theorem catalog_containment:
  assumes "s \<in> set (slots (get_slots st date_pref))"
  shows "fst (create_booking (snd (run st cs)) u n p i r (start_iso s)) =
           SavedReply (upper (take 8 u)) True"
proof -
  from assms set_get_slots have "s \<in> set (SLOTS st)" by blast
  then show ?thesis by (simp add: fst_create_booking)
qed

theorem catalog_containment_witness:
  "fst (create_booking (snd (run demo_state [ann_call])) ''9e8d7c6b5a4f4e3d8c2b1a0f9e8d7c6b''
      ''Bob Ray'' ''5550101'' ''Aetna'' ''rash'' ''2025-06-11T14:30:00'') =
     SavedReply (upper (take 8 ''9e8d7c6b5a4f4e3d8c2b1a0f9e8d7c6b'')) True"
proof -
  have "\<lparr>start_iso = ''2025-06-11T14:30:00'', duration_min = 20\<rparr>
      \<in> set (slots (get_slots demo_state (Some ''2025-06-11'')))"
    by (simp add: get_slots_def demo_state_def demo_catalog_def)
  from catalog_containment [OF this, of "[ann_call]"] show ?thesis by simp
qed

subsection \<open>The reason for the visit\<close>

text \<open>
  Claim C9, as the code has it. \<^verbatim>\<open>create_booking\<close> does not look at the reason: the
  reply for an empty reason is the reply for any other reason, and a call for a slot
  start of the catalog stores the reason as it was passed.
\<close>

theorem reason_is_not_validated:
  "fst (create_booking st u n p i [] s) = fst (create_booking st u n p i r s)
   \<and> (s \<in> start_iso ` set (SLOTS st) \<longrightarrow>
        create_booking st u n p i r s =
          (SavedReply (upper (take 8 u)) True,
           st\<lparr>BOOKINGS := BOOKINGS st @
             [\<lparr>id' = upper (take 8 u), name = n, phone = p, insurer = i, reason = r,
               slot_iso = s\<rparr>]\<rparr>))"
  by (simp add: create_booking_def Let_def)

theorem reason_is_not_validated_witness:
  "create_booking demo_state ''3f2b8c1de4a74f0e9b6a5d4c3b2a1908'' ''Ann Lee'' ''5550100'' ''Cigna''
     ''cough'' ''2025-06-10T10:00:00'' =
     (SavedReply (upper (take 8 ''3f2b8c1de4a74f0e9b6a5d4c3b2a1908'')) True,
      demo_state\<lparr>BOOKINGS := BOOKINGS demo_state @
        [\<lparr>id' = upper (take 8 ''3f2b8c1de4a74f0e9b6a5d4c3b2a1908''), name = ''Ann Lee'',
          phone = ''5550100'', insurer = ''Cigna'', reason = ''cough'',
          slot_iso = ''2025-06-10T10:00:00''\<rparr>]\<rparr>)"
proof -
  have "''2025-06-10T10:00:00'' \<in> start_iso ` set (SLOTS demo_state)"
    by (simp add: demo_state_def demo_catalog_def)
  with reason_is_not_validated [of demo_state "''3f2b8c1de4a74f0e9b6a5d4c3b2a1908''" "''Ann Lee''"
      "''5550100''" "''Cigna''" "''2025-06-10T10:00:00''" "''cough''"]
  show ?thesis by blast
qed

text \<open>The claim as stated fails: a call with the empty reason creates a booking.\<close>

theorem empty_reason_counterexample:
  "create_booking demo_state ''3f2b8c1de4a74f0e9b6a5d4c3b2a1908'' ''Ann Lee'' ''5550100'' ''Cigna''
     [] ''2025-06-10T10:00:00'' =
     (SavedReply ''3F2B8C1D'' True,
      \<lparr>SLOTS = demo_catalog,
       BOOKINGS =
        [\<lparr>id' = ''3F2B8C1D'', name = ''Ann Lee'', phone = ''5550100'', insurer = ''Cigna'',
          reason = [], slot_iso = ''2025-06-10T10:00:00''\<rparr>]\<rparr>)"
  by code_simp

subsection \<open>The date preference is a prefix\<close>

text \<open>
  Claim C10. For a non-empty \<^verbatim>\<open>date_pref\<close>, \<^verbatim>\<open>get_slots\<close> keeps the slots of the
  catalog whose \<^verbatim>\<open>start_iso\<close> begins with that string, character by character, and
  returns the first three of them at most; when there is none it returns the first six
  slots of the catalog at most, as it does for the empty string and for \<^verbatim>\<open>None\<close>.
  A year, a month or any other beginning of a timestamp selects slots.
\<close>

theorem get_slots_prefix_matching:
  "(d \<noteq> [] \<longrightarrow>
      slots (get_slots st (Some d)) =
        (if \<exists>s\<in>set (SLOTS st). take (length d) (start_iso s) = d
         then take 3 (filter (\<lambda>s. take (length d) (start_iso s) = d) (SLOTS st))
         else take 6 (SLOTS st)))
   \<and> slots (get_slots st (Some [])) = take 6 (SLOTS st)
   \<and> slots (get_slots st None) = take 6 (SLOTS st)"
  by (auto simp: get_slots_def Let_def prefix_take_conv filter_empty_conv)

theorem get_slots_prefix_witness:
  "slots (get_slots demo_state (Some ''2025'')) = take 3 demo_catalog
   \<and> slots (get_slots demo_state (Some ''2025-06-1'')) = take 3 demo_catalog
   \<and> slots (get_slots demo_state (Some ''2025-06-12T1'')) = drop 6 demo_catalog
   \<and> slots (get_slots demo_state (Some ''06-12'')) = take 6 demo_catalog"
proof -
  have a: "slots (get_slots demo_state (Some ''2025'')) = take 3 demo_catalog"
    using get_slots_prefix_matching [of "''2025''" demo_state]
    by (simp add: demo_state_def demo_catalog_def)
  have b: "slots (get_slots demo_state (Some ''2025-06-1'')) = take 3 demo_catalog"
    using get_slots_prefix_matching [of "''2025-06-1''" demo_state]
    by (simp add: demo_state_def demo_catalog_def)
  have c: "slots (get_slots demo_state (Some ''2025-06-12T1'')) = drop 6 demo_catalog"
    using get_slots_prefix_matching [of "''2025-06-12T1''" demo_state]
    by (simp add: demo_state_def demo_catalog_def)
  have d: "slots (get_slots demo_state (Some ''06-12'')) = take 6 demo_catalog"
    using get_slots_prefix_matching [of "''06-12''" demo_state]
    by (simp add: demo_state_def demo_catalog_def)
  from a b c d show ?thesis by simp
qed

end
